theory Spec2Isabelle
  imports Main "HOL-Library.Sublist"
begin

section \<open>JSON values and the JavaScript operations the handlers rely on\<close>

text \<open>
  Request bodies arrive as parsed JSON. Numbers are the integer-valued ones (their
  \<^verbatim>\<open>toString()\<close> is the decimal form); strings are lists of code units below 256.
  A property that is absent (JavaScript's \<^verbatim>\<open>undefined\<close>) is \<open>None\<close>.
\<close>

datatype json =
    JNull
  | JBool bool
  | JNum int
  | JStr string
  | JArr "json list"
  | JObj "(string \<times> json) list"

text \<open>JavaScript truthiness, as used by \<^verbatim>\<open>!x\<close> and \<^verbatim>\<open>x || y\<close>.\<close>

fun truthy :: "json \<Rightarrow> bool" where
  "truthy JNull = False"
| "truthy (JBool b) = b"
| "truthy (JNum n) = (n \<noteq> 0)"
| "truthy (JStr s) = (s \<noteq> [])"
| "truthy (JArr xs) = True"
| "truthy (JObj kvs) = True"

definition truthy_opt :: "json option \<Rightarrow> bool" where
  "truthy_opt v = (case v of None \<Rightarrow> False | Some j \<Rightarrow> truthy j)"

text \<open>\<^verbatim>\<open>typeof v === 'string'\<close>.\<close>

fun is_string :: "json \<Rightarrow> bool" where
  "is_string (JStr s) = True"
| "is_string _ = False"

text \<open>
  Reading a named property of a value that is neither \<^verbatim>\<open>null\<close> nor \<^verbatim>\<open>undefined\<close>:
  an object yields the stored value, every other value has no such own property.
\<close>

fun get_prop :: "json \<Rightarrow> string \<Rightarrow> json option" where
  "get_prop (JObj kvs) k = map_of kvs k"
| "get_prop _ k = None"

text \<open>
  Writing a property of an object literal: an existing key keeps its position and
  takes the new value, a new key goes to the end.
\<close>

fun set_prop :: "string \<Rightarrow> json \<Rightarrow> (string \<times> json) list \<Rightarrow> (string \<times> json) list" where
  "set_prop k v [] = [(k, v)]"
| "set_prop k v ((k', v') # kvs) =
     (if k' = k then (k, v) # kvs else (k', v') # set_prop k v kvs)"

text \<open>Object spread \<^verbatim>\<open>{...src}\<close> into the object built so far.\<close>

fun spread :: "(string \<times> json) list \<Rightarrow> (string \<times> json) list \<Rightarrow> (string \<times> json) list" where
  "spread obj [] = obj"
| "spread obj ((k, v) # src) = spread (set_prop k v obj) src"

text \<open>\<^verbatim>\<open>Number.prototype.toString()\<close> on an integer that a JSON number holds exactly
  (magnitude below \<open>2 ^ 53\<close>): its decimal form.\<close>

definition digit_char :: "nat \<Rightarrow> char" where
  "digit_char d = char_of (48 + d)"

fun show_nat :: "nat \<Rightarrow> string" where
  "show_nat n = (if n < 10 then [digit_char n] else show_nat (n div 10) @ [digit_char (n mod 10)])"

declare show_nat.simps [simp del]

definition show_int :: "int \<Rightarrow> string" where
  "show_int i = (if i < 0 then CHR ''-'' # show_nat (nat (- i)) else show_nat (nat i))"

text \<open>A thrown value: an \<^verbatim>\<open>Error\<close> with its message, or anything else.\<close>

datatype exn = Error string | Thrown

text \<open>\<^verbatim>\<open>error instanceof Error ? error.message : fallback\<close>.\<close>

fun message_of :: "exn \<Rightarrow> string \<Rightarrow> string" where
  "message_of (Error m) fallback = m"
| "message_of Thrown fallback = fallback"

section \<open>Whitespace cleaning (\<^verbatim>\<open>getEmbedding\<close>)\<close>

text \<open>The class \<^verbatim>\<open>\s\<close> restricted to code units below 256.\<close>

definition is_space :: "char \<Rightarrow> bool" where
  "is_space c = (of_char c \<in> {9, 10, 11, 12, 13, 32, 160 :: nat})"

text \<open>\<^verbatim>\<open>text.replace(/\s\s+/g, ' ')\<close>: every maximal run of two or more whitespace
  characters becomes one blank; a lone whitespace character stays as it is.\<close>

function replace_runs :: "string \<Rightarrow> string" where
  "replace_runs [] = []"
| "replace_runs (c # cs) =
     (if is_space c \<and> takeWhile is_space cs \<noteq> []
      then CHR '' '' # replace_runs (dropWhile is_space cs)
      else c # replace_runs cs)"
  by pat_completeness auto
termination
  by (relation "measure length") (auto simp: length_dropWhile_le less_Suc_eq_le)

text \<open>\<^verbatim>\<open>String.prototype.trim()\<close>.\<close>

definition trim :: "string \<Rightarrow> string" where
  "trim s = rev (dropWhile is_space (rev (dropWhile is_space s)))"

definition clean_text :: "string \<Rightarrow> string" where
  "clean_text s = trim (replace_runs s)"

section \<open>The upsert handler\<close>

text \<open>
  \<^verbatim>\<open>LessonUpsertRequest\<close>: \<^verbatim>\<open>id?: string | number\<close>, \<^verbatim>\<open>content\<close> (checked at run time,
  so any JSON value or absent), \<^verbatim>\<open>metadata?: Record<string, any>\<close>.
\<close>

datatype lesson_id = IdStr string | IdNum int

record LessonUpsertRequest =
  id_field :: "lesson_id option"
  content :: "json option"
  metadata :: "(string \<times> json) list option"

text \<open>The record handed to the vector store.\<close>

record 'v vector =
  vector_id :: string
  vector_values :: 'v
  vector_metadata :: "(string \<times> json) list"

text \<open>Calls made to the collaborators, in order.\<close>

datatype 'v upsert_call = EmbeddingsCreate string | NamespaceUpsert "'v vector"

text \<open>
  What the outside world answers during one request: the embedding service, the
  identifier \<^verbatim>\<open>uuidv4()\<close> would return, the clock, and the vector store.
\<close>

record 'v upsert_env =
  embeddings_create :: "string \<Rightarrow> exn + 'v"
  uuidv4 :: string
  toISOString_now :: string
  namespace_upsert :: "'v vector \<Rightarrow> exn option"

datatype upsert_body = UpsertOk string string | UpsertError string

record 'v upsert_result =
  upsert_status :: nat
  upsert_json :: upsert_body
  upsert_calls :: "'v upsert_call list"

definition getEmbedding :: "'v upsert_env \<Rightarrow> string \<Rightarrow> (exn + 'v) \<times> 'v upsert_call list" where
  "getEmbedding env text =
     (let cleanedText = clean_text text in
      if cleanedText = [] then (Inl (Error ''Cannot generate embedding for empty text.''), [])
      else (case embeddings_create env cleanedText of
              Inr v \<Rightarrow> (Inr v, [EmbeddingsCreate cleanedText])
            | Inl e \<Rightarrow> (Inl (Error (''Failed to get embedding: '' @ message_of e ''Unknown error'')),
                        [EmbeddingsCreate cleanedText])))"

text \<open>The \<^verbatim>\<open>catch\<close> block of the handler.\<close>

definition upsert_caught :: "exn \<Rightarrow> 'v upsert_call list \<Rightarrow> 'v upsert_result" where
  "upsert_caught e calls =
     \<lparr> upsert_status = 500,
       upsert_json = UpsertError (''There was an error processing your request: ''
                                    @ message_of e ''Unknown error''),
       upsert_calls = calls \<rparr>"

text \<open>\<^verbatim>\<open>lessonData.id || uuidv4()\<close>.\<close>

definition lessonId_of :: "'v upsert_env \<Rightarrow> lesson_id option \<Rightarrow> lesson_id" where
  "lessonId_of env i =
     (case i of
        None \<Rightarrow> IdStr (uuidv4 env)
      | Some (IdStr s) \<Rightarrow> (if s \<noteq> [] then IdStr s else IdStr (uuidv4 env))
      | Some (IdNum n) \<Rightarrow> (if n \<noteq> 0 then IdNum n else IdStr (uuidv4 env)))"

text \<open>\<^verbatim>\<open>typeof lessonId === 'number' ? lessonId.toString() : lessonId\<close>.\<close>

fun stringId_of :: "lesson_id \<Rightarrow> string" where
  "stringId_of (IdNum n) = show_int n"
| "stringId_of (IdStr s) = s"

text \<open>\<^verbatim>\<open>{ content: lessonData.content, ...(lessonData.metadata || {}), lastUpdated: ... }\<close>.\<close>

definition build_metadata ::
  "json \<Rightarrow> (string \<times> json) list option \<Rightarrow> string \<Rightarrow> (string \<times> json) list" where
  "build_metadata c md now =
     set_prop ''lastUpdated'' (JStr now)
       (spread [(''content'', c)] (case md of None \<Rightarrow> [] | Some kvs \<Rightarrow> kvs))"

definition vectorToUpsert :: "'v upsert_env \<Rightarrow> LessonUpsertRequest \<Rightarrow> json \<Rightarrow> 'v \<Rightarrow> 'v vector" where
  "vectorToUpsert env lessonData c embedding =
     \<lparr> vector_id = stringId_of (lessonId_of env (id_field lessonData)),
       vector_values = embedding,
       vector_metadata = build_metadata c (metadata lessonData) (toISOString_now env) \<rparr>"

text \<open>The response to a request without usable content.\<close>

definition bad_request :: "'v upsert_result" where
  "bad_request =
     \<lparr> upsert_status = 400,
       upsert_json = UpsertError ''Invalid request: content field is required and must be a string.'',
       upsert_calls = [] \<rparr>"

text \<open>
  The handler. Its guard \<^verbatim>\<open>!lessonData.content || typeof lessonData.content !== 'string'\<close>
  lets a request through exactly when \<^verbatim>\<open>content\<close> is a string and truthy.
\<close>

definition POST_upsert :: "'v upsert_env \<Rightarrow> LessonUpsertRequest \<Rightarrow> 'v upsert_result" where
  "POST_upsert env lessonData =
     (case content lessonData of
        Some (JStr text) \<Rightarrow>
          if truthy (JStr text) then
            (case getEmbedding env text of
               (Inl e, calls) \<Rightarrow> upsert_caught e calls
             | (Inr embedding, calls) \<Rightarrow>
                 let v = vectorToUpsert env lessonData (JStr text) embedding;
                     stringId = vector_id v
                 in (case namespace_upsert env v of
                       Some e \<Rightarrow> upsert_caught e (calls @ [NamespaceUpsert v])
                     | None \<Rightarrow>
                         \<lparr> upsert_status = 200,
                           upsert_json =
                             UpsertOk (''Successfully upserted lesson with ID: '' @ stringId) stringId,
                           upsert_calls = calls @ [NamespaceUpsert v] \<rparr>))
          else bad_request
      | _ \<Rightarrow> bad_request)"

section \<open>The chat handler\<close>

text \<open>
  \<^verbatim>\<open>new HumanMessage(c)\<close> and \<^verbatim>\<open>new AIMessage(c)\<close> with the content handed to the
  constructor. Contents are strings by the contract of a chat message and of the agent's
  output; what the constructors do with a content that is not a string is not modelled.
\<close>

datatype message = HumanMessage json | AIMessage json

text \<open>The retriever behind the search tool: \<^verbatim>\<open>asRetriever({ k: 3, filter })\<close>.\<close>

record retriever =
  retriever_k :: nat
  retriever_filter :: "json option"

text \<open>
  A tool of the agent executor. \<open>tool_retriever\<close> is the property \<^verbatim>\<open>retriever\<close> that
  \<^verbatim>\<open>RetrieverToolWithFilter\<close> declares and \<^verbatim>\<open>updateExistingSessionFilters\<close> tests for and
  writes to. \<open>func_retriever\<close> is the retriever that the tool's function queries:
  \<^verbatim>\<open>createRetrieverTool(retriever, {name, description})\<close> keeps its first argument inside
  the function of the tool it returns, and that tool has no property named
  \<^verbatim>\<open>retriever\<close>.
\<close>

record tool =
  tool_name :: string
  tool_retriever :: "retriever option"
  func_retriever :: retriever

record AgentExecutor =
  tools :: "tool list"

record ChatSession =
  agentExecutor :: AgentExecutor
  chatHistory :: "message list"

text \<open>What \<^verbatim>\<open>agentExecutor.invoke\<close> resolves to.\<close>

record agent_result =
  result_output :: "json option"
  intermediateSteps :: "json list option"

text \<open>
  The collaborators of one chat request: whether the awaited constructions inside
  \<^verbatim>\<open>createNewUserSession\<close> throw, and what the agent answers.
\<close>

record chat_env =
  session_setup :: "json option \<Rightarrow> exn option"
  agent_invoke :: "AgentExecutor \<Rightarrow> json \<Rightarrow> message list \<Rightarrow> exn + agent_result"

text \<open>
  The request body \<^verbatim>\<open>{ messages, userId, lessonIds }\<close>: \<^verbatim>\<open>messages\<close> and \<^verbatim>\<open>lessonIds\<close> are
  arrays of arbitrary JSON values or absent, \<^verbatim>\<open>userId\<close> is a string or absent.
\<close>

record chat_request =
  messages :: "json list option"
  userId :: "string option"
  lessonIds :: "json list option"

record debug_info =
  usedRetrieval :: bool
  appliedFilter :: "json option"

datatype chat_body = ChatOk json debug_info | ChatError string

datatype chat_call = CreateSession "json option" | AgentInvoke AgentExecutor json "message list"

type_synonym session_map = "string \<rightharpoonup> ChatSession"

text \<open>The response, the session map \<^verbatim>\<open>conversationHistories\<close> afterwards, and the calls made.\<close>

record chat_result =
  chat_status :: nat
  chat_json :: chat_body
  conversationHistories :: session_map
  chat_calls :: "chat_call list"

text \<open>Lines 70--79: the two validation steps; \<open>Inr\<close> carries \<^verbatim>\<open>userMessage\<close>.\<close>

definition validate_messages :: "chat_request \<Rightarrow> string + json" where
  "validate_messages req =
     (case messages req of
        None \<Rightarrow> Inl ''No messages found''
      | Some ms \<Rightarrow>
          if length ms = 0 then Inl ''No messages found''
          else
            let latestMessage = last ms in
            if \<not> truthy latestMessage then Inl ''Invalid message format''
            else (case get_prop latestMessage ''content'' of
                    None \<Rightarrow> Inl ''Invalid message format''
                  | Some c \<Rightarrow> if truthy c then Inr c else Inl ''Invalid message format''))"

text \<open>Lines 89--91.\<close>

definition metadataFilter_of :: "json list option \<Rightarrow> json option" where
  "metadataFilter_of ids =
     (let lessonIds = (case ids of None \<Rightarrow> [] | Some l \<Rightarrow> l) in
      if length lessonIds > 0 then Some (JObj [(''id'', JObj [(''$in'', JArr lessonIds)])])
      else None)"

definition createNewUserSession :: "chat_env \<Rightarrow> json option \<Rightarrow> exn + ChatSession" where
  "createNewUserSession env metadataFilter =
     (case session_setup env metadataFilter of
        Some e \<Rightarrow> Inl e
      | None \<Rightarrow>
          let retriever = \<lparr> retriever_k = 3, retriever_filter = metadataFilter \<rparr>;
              retrieverTool =
                \<lparr> tool_name = ''fusion360_search'',
                  tool_retriever = None,
                  func_retriever = retriever \<rparr>
          in Inr \<lparr> agentExecutor = \<lparr> tools = [retrieverTool] \<rparr>, chatHistory = [] \<rparr>)"

text \<open>\<^verbatim>\<open>Array.prototype.findIndex\<close>, with \<open>None\<close> for \<^verbatim>\<open>-1\<close>.\<close>

fun findIndex :: "('a \<Rightarrow> bool) \<Rightarrow> 'a list \<Rightarrow> nat option" where
  "findIndex P [] = None"
| "findIndex P (x # xs) = (if P x then Some 0 else map_option Suc (findIndex P xs))"

definition updateExistingSessionFilters :: "ChatSession \<Rightarrow> json option \<Rightarrow> ChatSession" where
  "updateExistingSessionFilters userSession metadataFilter =
     (case metadataFilter of
        None \<Rightarrow> userSession
      | Some f \<Rightarrow>
          let ts = tools (agentExecutor userSession) in
          (case findIndex (\<lambda>t. tool_name t = ''fusion360_search'') ts of
             None \<Rightarrow> userSession
           | Some retrieverToolIndex \<Rightarrow>
               let currentRetrieverTool = ts ! retrieverToolIndex in
               (case tool_retriever currentRetrieverTool of
                  None \<Rightarrow> userSession
                | Some r \<Rightarrow>
                    userSession
                      \<lparr> agentExecutor :=
                          \<lparr> tools = ts[retrieverToolIndex :=
                                     currentRetrieverTool
                                       \<lparr> tool_retriever := Some (r \<lparr> retriever_filter := Some f \<rparr>) \<rparr>] \<rparr> \<rparr>)))"

text \<open>Lines 85 and 96--102: look the session up, build it or patch its filter.\<close>

definition resolve_session ::
  "chat_env \<Rightarrow> session_map \<Rightarrow> string \<Rightarrow> json option
     \<Rightarrow> (exn + ChatSession) \<times> session_map \<times> chat_call list" where
  "resolve_session env store uid metadataFilter =
     (case store uid of
        None \<Rightarrow>
          (case createNewUserSession env metadataFilter of
             Inl e \<Rightarrow> (Inl e, store, [CreateSession metadataFilter])
           | Inr userSession \<Rightarrow>
               (Inr userSession, store(uid \<mapsto> userSession), [CreateSession metadataFilter]))
      | Some userSession \<Rightarrow>
          let patched = updateExistingSessionFilters userSession metadataFilter
          in (Inr patched, store(uid \<mapsto> patched), []))"

definition chat_caught :: "exn \<Rightarrow> session_map \<Rightarrow> chat_call list \<Rightarrow> chat_result" where
  "chat_caught e store calls =
     \<lparr> chat_status = 500,
       chat_json = ChatError (''There was an error processing your request: ''
                                @ message_of e ''An unknown error occurred''),
       conversationHistories = store,
       chat_calls = calls \<rparr>"

text \<open>\<^verbatim>\<open>result.output || "I couldn't generate a response. Please try again."\<close>.\<close>

definition responseText_of :: "agent_result \<Rightarrow> json" where
  "responseText_of result =
     (case result_output result of
        None \<Rightarrow> JStr ''I couldn't generate a response. Please try again.''
      | Some out \<Rightarrow>
          if truthy out then out else JStr ''I couldn't generate a response. Please try again.'')"

text \<open>\<^verbatim>\<open>result.intermediateSteps?.length > 0\<close>.\<close>

definition usedRetrieval_of :: "agent_result \<Rightarrow> bool" where
  "usedRetrieval_of result =
     (case intermediateSteps result of None \<Rightarrow> False | Some steps \<Rightarrow> length steps > 0)"

text \<open>Lines 114--120: two pushes, then \<^verbatim>\<open>slice(-10)\<close> when more than ten entries.\<close>

definition push_and_trim :: "message list \<Rightarrow> json \<Rightarrow> json \<Rightarrow> message list" where
  "push_and_trim history userMessage responseText =
     (let pushed = history @ [HumanMessage userMessage] @ [AIMessage responseText] in
      if length pushed > 10 then drop (length pushed - 10) pushed else pushed)"

definition userId_of :: "chat_request \<Rightarrow> string" where
  "userId_of req = (case userId req of None \<Rightarrow> ''default-user'' | Some u \<Rightarrow> u)"

definition POST_chat :: "chat_env \<Rightarrow> session_map \<Rightarrow> chat_request \<Rightarrow> chat_result" where
  "POST_chat env store req =
     (case validate_messages req of
        Inl msg \<Rightarrow>
          \<lparr> chat_status = 400, chat_json = ChatError msg,
            conversationHistories = store, chat_calls = [] \<rparr>
      | Inr userMessage \<Rightarrow>
          let uid = userId_of req;
              metadataFilter = metadataFilter_of (lessonIds req)
          in (case resolve_session env store uid metadataFilter of
                (Inl e, store1, calls) \<Rightarrow> chat_caught e store1 calls
              | (Inr userSession, store1, calls) \<Rightarrow>
                  let calls1 = calls @ [AgentInvoke (agentExecutor userSession) userMessage
                                          (chatHistory userSession)]
                  in (case agent_invoke env (agentExecutor userSession) userMessage
                             (chatHistory userSession) of
                        Inl e \<Rightarrow> chat_caught e store1 calls1
                      | Inr result \<Rightarrow>
                          let responseText = responseText_of result;
                              updated = userSession
                                \<lparr> chatHistory :=
                                    push_and_trim (chatHistory userSession) userMessage responseText \<rparr>
                          in \<lparr> chat_status = 200,
                               chat_json = ChatOk responseText
                                 \<lparr> usedRetrieval = usedRetrieval_of result,
                                   appliedFilter = metadataFilter \<rparr>,
                               conversationHistories = store1(uid \<mapsto> updated),
                               chat_calls = calls1 \<rparr>)))"

text \<open>Successive requests, each with the collaborators' answers for that request.\<close>

fun run_turns :: "session_map \<Rightarrow> (chat_env \<times> chat_request) list \<Rightarrow> session_map \<times> chat_result list" where
  "run_turns store [] = (store, [])"
| "run_turns store ((env, req) # rest) =
     (let r = POST_chat env store req;
          (final, rs) = run_turns (conversationHistories r) rest
      in (final, r # rs))"

section \<open>Observations used to state the properties\<close>

text \<open>The history a user has before a request: empty when there is no session yet.\<close>

definition history_before :: "session_map \<Rightarrow> string \<Rightarrow> message list" where
  "history_before store uid = (case store uid of None \<Rightarrow> [] | Some s \<Rightarrow> chatHistory s)"

text \<open>The filter of the retriever that the session's search tool queries, if the session
  has a search tool.\<close>

definition search_tool_filter :: "ChatSession \<Rightarrow> json option option" where
  "search_tool_filter s =
     (case findIndex (\<lambda>t. tool_name t = ''fusion360_search'') (tools (agentExecutor s)) of
        None \<Rightarrow> None
      | Some i \<Rightarrow> Some (retriever_filter (func_retriever (tools (agentExecutor s) ! i))))"

text \<open>No tool of the session has a property named \<^verbatim>\<open>retriever\<close>.\<close>

definition no_retriever_property :: "ChatSession \<Rightarrow> bool" where
  "no_retriever_property s = list_all (\<lambda>t. tool_retriever t = None) (tools (agentExecutor s))"

text \<open>A history made of user/assistant pairs.\<close>

fun alternating :: "message list \<Rightarrow> bool" where
  "alternating [] = True"
| "alternating (HumanMessage u # AIMessage a # rest) = alternating rest"
| "alternating _ = False"

section \<open>Concrete collaborators and requests for evaluating the handlers\<close>

text \<open>An embedding service that always answers, a fixed identifier and clock, and a
  vector store that accepts every write.\<close>

definition demo_upsert_env :: "nat list upsert_env" where
  "demo_upsert_env =
     \<lparr> embeddings_create = (\<lambda>t. Inr [1, 2, 3]),
       uuidv4 = ''0b6c3f1e-8d2a-4c55-9f10-7a1e2d3c4b5a'',
       toISOString_now = ''2025-01-01T00:00:00.000Z'',
       namespace_upsert = (\<lambda>v. None) \<rparr>"

text \<open>A chat message from the user, as it appears in a request body.\<close>

definition user_message :: "string \<Rightarrow> json" where
  "user_message txt = JObj [(''role'', JStr ''user''), (''content'', JStr txt)]"

text \<open>An agent that answers and reports one tool step, one that returns no output, and
  one whose invocation throws.\<close>

definition answering_env :: chat_env where
  "answering_env =
     \<lparr> session_setup = (\<lambda>f. None),
       agent_invoke = (\<lambda>ex inp h.
         Inr \<lparr> result_output = Some (JStr ''ok''), intermediateSteps = Some [JNull] \<rparr>) \<rparr>"

definition silent_env :: chat_env where
  "silent_env =
     \<lparr> session_setup = (\<lambda>f. None),
       agent_invoke = (\<lambda>ex inp h. Inr \<lparr> result_output = None, intermediateSteps = None \<rparr>) \<rparr>"

definition failing_env :: chat_env where
  "failing_env =
     \<lparr> session_setup = (\<lambda>f. None),
       agent_invoke = (\<lambda>ex inp h. Inl (Error ''429 rate limit'')) \<rparr>"

text \<open>Requests of user \<open>u1\<close>, without and with lesson identifiers, and eleven requests
  in a row whose messages are numbered.\<close>

definition hi_request :: chat_request where
  "hi_request = \<lparr> messages = Some [user_message ''hi''], userId = Some ''u1'', lessonIds = None \<rparr>"

definition one_lesson_request :: chat_request where
  "one_lesson_request =
     \<lparr> messages = Some [user_message ''hi''], userId = Some ''u1'',
       lessonIds = Some [JStr ''1001''] \<rparr>"

definition filtered_request :: chat_request where
  "filtered_request =
     \<lparr> messages = Some [user_message ''hi''], userId = Some ''u1'',
       lessonIds = Some [JStr ''1001'', JStr ''1002''] \<rparr>"

definition numbered_turns :: "(chat_env \<times> chat_request) list" where
  "numbered_turns =
     map (\<lambda>n. (answering_env,
               \<lparr> messages = Some [user_message (show_nat n)], userId = Some ''u1'',
                 lessonIds = None \<rparr>))
       [1 ..< 12]"

text \<open>A session as \<^verbatim>\<open>createNewUserSession\<close> builds it, with a given filter and history,
  and a session map that holds one for user \<open>u1\<close>.\<close>

definition search_session :: "json option \<Rightarrow> message list \<Rightarrow> ChatSession" where
  "search_session f h =
     \<lparr> agentExecutor =
         \<lparr> tools = [\<lparr> tool_name = ''fusion360_search'',
                       tool_retriever = None,
                       func_retriever = \<lparr> retriever_k = 3, retriever_filter = f \<rparr> \<rparr>] \<rparr>,
       chatHistory = h \<rparr>"

definition lessons_filter :: "json list \<Rightarrow> json" where
  "lessons_filter ids = JObj [(''id'', JObj [(''$in'', JArr ids)])]"

definition seeded_store :: session_map where
  "seeded_store = Map.empty(''u1'' \<mapsto>
     search_session (Some (lessons_filter [JStr ''1001'']))
       [HumanMessage (JStr ''hello''), AIMessage (JStr ''ok'')])"

section \<open>Properties of the upsert handler\<close>

subsection \<open>Object literals\<close>

lemma map_of_set_prop: "map_of (set_prop k v kvs) = (map_of kvs)(k \<mapsto> v)"
  by (induction kvs) auto

lemma map_of_spread: "map_of (spread obj src) = map_of obj ++ map_of (rev src)"
proof (induction src arbitrary: obj)
  case Nil
  then show ?case by simp
next
  case (Cons kv src)
  obtain k v where kv: "kv = (k, v)" by (cases kv)
  show ?case
    by (simp add: kv Cons.IH map_of_set_prop map_add_def fun_eq_iff split: option.splits)
qed

lemma build_metadata_lastUpdated:
  "map_of (build_metadata c md now) ''lastUpdated'' = Some (JStr now)"
  by (simp add: build_metadata_def map_of_set_prop)

lemma build_metadata_content:
  "map_of (build_metadata c md now) ''content'' =
     (case md of
        None \<Rightarrow> Some c
      | Some kvs \<Rightarrow> (case map_of (rev kvs) ''content'' of None \<Rightarrow> Some c | Some v \<Rightarrow> Some v))"
  by (simp add: build_metadata_def map_of_set_prop map_of_spread map_add_def split: option.splits)

subsection \<open>Whitespace cleaning\<close>

lemma replace_runs_all_space:
  "\<forall>c \<in> set s. is_space c \<Longrightarrow> \<forall>c \<in> set (replace_runs s). is_space c"
proof (induction s rule: replace_runs.induct)
  case 1
  then show ?case by simp
next
  case (2 c cs)
  have blank: "is_space CHR '' ''" by (simp add: is_space_def)
  from "2.prems" have c: "is_space c" and cs: "\<forall>x \<in> set cs. is_space x" by simp_all
  show ?case
  proof (cases "is_space c \<and> takeWhile is_space cs \<noteq> []")
    case True
    from cs have "\<forall>x \<in> set (dropWhile is_space cs). is_space x"
      by (meson set_dropWhileD)
    with True have "\<forall>x \<in> set (replace_runs (dropWhile is_space cs)). is_space x"
      by (rule "2.IH"(1))
    with True blank show ?thesis by simp
  next
    case False
    from False cs have "\<forall>x \<in> set (replace_runs cs). is_space x"
      by (rule "2.IH"(2))
    with False c show ?thesis by simp
  qed
qed

lemma replace_runs_keeps_nonspace:
  "c \<in> set s \<Longrightarrow> \<not> is_space c \<Longrightarrow> c \<in> set (replace_runs s)"
proof (induction s rule: replace_runs.induct)
  case 1
  then show ?case by simp
next
  case (2 d cs)
  show ?case
  proof (cases "is_space d \<and> takeWhile is_space cs \<noteq> []")
    case True
    with 2 have "c \<in> set cs" by auto
    moreover have "set cs = set (takeWhile is_space cs) \<union> set (dropWhile is_space cs)"
      by (metis set_append takeWhile_dropWhile_id)
    ultimately have "c \<in> set (dropWhile is_space cs)"
      using 2(4) by (auto dest: set_takeWhileD)
    with 2 True show ?thesis by simp
  next
    case False
    with 2 show ?thesis by auto
  qed
qed

lemma trim_empty_iff: "trim s = [] \<longleftrightarrow> (\<forall>c \<in> set s. is_space c)"
proof -
  let ?ds = "dropWhile is_space s"
  have a: "trim s = [] \<longleftrightarrow> dropWhile is_space (rev ?ds) = []"
    by (simp add: trim_def)
  have b: "dropWhile is_space (rev ?ds) = [] \<longleftrightarrow> (\<forall>c \<in> set ?ds. is_space c)"
    by (simp only: dropWhile_eq_Nil_conv set_rev)
  have c: "(\<forall>c \<in> set ?ds. is_space c) \<longleftrightarrow> ?ds = []"
  proof
    assume all: "\<forall>c \<in> set ?ds. is_space c"
    show "?ds = []"
    proof (rule ccontr)
      assume ne: "?ds \<noteq> []"
      then have "\<not> is_space (hd ?ds)" by (rule hd_dropWhile)
      moreover from ne have "hd ?ds \<in> set ?ds" by (rule hd_in_set)
      ultimately show False using all by blast
    qed
  next
    assume "?ds = []"
    then show "\<forall>c \<in> set ?ds. is_space c" by (simp only: set_simps ball_empty)
  qed
  have d: "?ds = [] \<longleftrightarrow> (\<forall>c \<in> set s. is_space c)"
    by (simp only: dropWhile_eq_Nil_conv)
  show ?thesis by (simp only: a b c d)
qed

lemma clean_text_empty_iff: "clean_text s = [] \<longleftrightarrow> (\<forall>c \<in> set s. is_space c)"
proof -
  have "(\<forall>c \<in> set (replace_runs s). is_space c) \<longleftrightarrow> (\<forall>c \<in> set s. is_space c)"
  proof
    assume r: "\<forall>c \<in> set (replace_runs s). is_space c"
    show "\<forall>c \<in> set s. is_space c"
    proof
      fix c assume "c \<in> set s"
      show "is_space c"
      proof (rule ccontr)
        assume "\<not> is_space c"
        with \<open>c \<in> set s\<close> have "c \<in> set (replace_runs s)"
          by (rule replace_runs_keeps_nonspace)
        with r \<open>\<not> is_space c\<close> show False by blast
      qed
    qed
  next
    assume "\<forall>c \<in> set s. is_space c"
    then show "\<forall>c \<in> set (replace_runs s). is_space c" by (rule replace_runs_all_space)
  qed
  then show ?thesis by (simp only: clean_text_def trim_empty_iff)
qed

lemma clean_blank: "clean_text [CHR '' '', CHR 0x09, CHR 0x0A] = []"
  by (simp add: clean_text_empty_iff is_space_def)

subsection \<open>Content validation\<close>

lemma POST_upsert_invalid:
  assumes "content req = None \<or> (\<exists>c. content req = Some c \<and> (\<not> is_string c \<or> c = JStr []))"
  shows "POST_upsert env req = bad_request"
proof -
  from assms consider "content req = None" | c where "content req = Some c" "\<not> is_string c"
    | "content req = Some (JStr [])" by auto
  then show ?thesis
  proof cases
    case 1
    then show ?thesis by (simp add: POST_upsert_def)
  next
    case (2 c)
    then show ?thesis by (cases c) (simp_all add: POST_upsert_def)
  next
    case 3
    then show ?thesis by (simp add: POST_upsert_def)
  qed
qed

lemma POST_upsert_blank:
  assumes "content req = Some (JStr s)" and "s \<noteq> []" and "clean_text s = []"
  shows "POST_upsert env req =
           \<lparr> upsert_status = 500,
             upsert_json = UpsertError
               ''There was an error processing your request: Cannot generate embedding for empty text.'',
             upsert_calls = [] \<rparr>"
  using assms by (simp add: POST_upsert_def getEmbedding_def upsert_caught_def)

text \<open>
  Claim C7. A request whose \<^verbatim>\<open>content\<close> is missing, is not a string, or is the empty
  string is answered with status 400 and no collaborator is called. A request whose
  \<^verbatim>\<open>content\<close> is a non-empty string that cleaning reduces to the empty string is
  answered with status 500, carrying the message of the error \<^verbatim>\<open>getEmbedding\<close> throws
  for empty text.
\<close>

theorem upsert_content_validation:
  "((content req = None \<or> (\<exists>c. content req = Some c \<and> (\<not> is_string c \<or> c = JStr [])))
      \<longrightarrow> upsert_status (POST_upsert env req) = 400 \<and> upsert_calls (POST_upsert env req) = [])
   \<and> ((\<exists>s. content req = Some (JStr s) \<and> s \<noteq> [] \<and> clean_text s = [])
      \<longrightarrow> upsert_status (POST_upsert env req) = 500
        \<and> upsert_json (POST_upsert env req) = UpsertError
             ''There was an error processing your request: Cannot generate embedding for empty text.''
        \<and> upsert_calls (POST_upsert env req) = [])"
proof (intro conjI impI)
  assume bad: "content req = None \<or> (\<exists>c. content req = Some c \<and> (\<not> is_string c \<or> c = JStr []))"
  show "upsert_status (POST_upsert env req) = 400"
    by (simp add: POST_upsert_invalid [OF bad] bad_request_def)
  show "upsert_calls (POST_upsert env req) = []"
    by (simp add: POST_upsert_invalid [OF bad] bad_request_def)
next
  assume "\<exists>s. content req = Some (JStr s) \<and> s \<noteq> [] \<and> clean_text s = []"
  then obtain s where s: "content req = Some (JStr s)" "s \<noteq> []" "clean_text s = []" by blast
  note eq = POST_upsert_blank [OF s, of env]
  show "upsert_status (POST_upsert env req) = 500" by (simp add: eq)
  show "upsert_json (POST_upsert env req) = UpsertError
             ''There was an error processing your request: Cannot generate embedding for empty text.''"
    by (simp add: eq)
  show "upsert_calls (POST_upsert env req) = []" by (simp add: eq)
qed

theorem upsert_content_validation_witness:
  "content \<lparr> id_field = None, content = Some (JNum 7), metadata = None \<rparr> = Some (JNum 7)
   \<and> \<not> is_string (JNum 7)
   \<and> upsert_status (POST_upsert demo_upsert_env \<lparr> id_field = None, content = Some (JNum 7), metadata = None \<rparr>) = 400
   \<and> upsert_calls (POST_upsert demo_upsert_env \<lparr> id_field = None, content = Some (JNum 7), metadata = None \<rparr>) = []
   \<and> clean_text [CHR '' '', CHR 0x09, CHR 0x0A] = []
   \<and> upsert_status (POST_upsert demo_upsert_env
        \<lparr> id_field = None, content = Some (JStr [CHR '' '', CHR 0x09, CHR 0x0A]), metadata = None \<rparr>) = 500
   \<and> upsert_calls (POST_upsert demo_upsert_env
        \<lparr> id_field = None, content = Some (JStr [CHR '' '', CHR 0x09, CHR 0x0A]), metadata = None \<rparr>) = []"
  using upsert_content_validation
          [of "\<lparr> id_field = None, content = Some (JNum 7), metadata = None \<rparr>" demo_upsert_env]
        upsert_content_validation
          [of "\<lparr> id_field = None, content = Some (JStr [CHR '' '', CHR 0x09, CHR 0x0A]), metadata = None \<rparr>"
              demo_upsert_env]
        clean_blank
  by simp

subsection \<open>Stored metadata and identifier\<close>

lemma stringId_supplied:
  "s \<noteq> [] \<Longrightarrow> stringId_of (lessonId_of env (Some (IdStr s))) = s"
  "n \<noteq> 0 \<Longrightarrow> \<bar>n\<bar> < 2 ^ 53 \<Longrightarrow> stringId_of (lessonId_of env (Some (IdNum n))) = show_int n"
  "stringId_of (lessonId_of env None) = uuidv4 env"
  by (simp_all add: lessonId_of_def)

text \<open>
  Claim C1. The claim says that the stored \<^verbatim>\<open>content\<close> is the request's content even
  when the caller's metadata has a \<^verbatim>\<open>content\<close> key. The object literal spreads the
  caller's metadata after \<^verbatim>\<open>content\<close>, so the caller's value is the one stored: for
  content \<open>''A''\<close> and metadata \<open>{content: ''B''}\<close> the vector store receives
  \<open>''B''\<close>. (\<^verbatim>\<open>lastUpdated\<close> is written after the spread and does win, see
  \<open>build_metadata_lastUpdated\<close>.)
\<close>

theorem upsert_caller_content_overrides:
  "upsert_calls (POST_upsert demo_upsert_env
      \<lparr> id_field = Some (IdStr ''1011''), content = Some (JStr ''A''),
        metadata = Some [(''content'', JStr ''B'')] \<rparr>)
   = [EmbeddingsCreate ''A'',
      NamespaceUpsert
        \<lparr> vector_id = ''1011'', vector_values = [1, 2, 3],
          vector_metadata = [(''content'', JStr ''B''),
                             (''lastUpdated'', JStr ''2025-01-01T00:00:00.000Z'')] \<rparr>]"
  by code_simp

text \<open>
  Claim C2. The claim says that a supplied numeric id is stored in decimal form and
  that an identifier is generated only when none is supplied. The handler picks the
  identifier with \<^verbatim>\<open>lessonData.id || uuidv4()\<close>, so the supplied id \<open>0\<close> is
  replaced by a generated one (for ids that are truthy, see \<open>stringId_supplied\<close>).
\<close>

theorem upsert_zero_id_replaced:
  "upsert_json (POST_upsert demo_upsert_env
      \<lparr> id_field = Some (IdNum 0), content = Some (JStr ''A''), metadata = None \<rparr>)
   = UpsertOk ''Successfully upserted lesson with ID: 0b6c3f1e-8d2a-4c55-9f10-7a1e2d3c4b5a''
       ''0b6c3f1e-8d2a-4c55-9f10-7a1e2d3c4b5a''
   \<and> upsert_calls (POST_upsert demo_upsert_env
      \<lparr> id_field = Some (IdNum 0), content = Some (JStr ''A''), metadata = None \<rparr>)
   = [EmbeddingsCreate ''A'',
      NamespaceUpsert
        \<lparr> vector_id = ''0b6c3f1e-8d2a-4c55-9f10-7a1e2d3c4b5a'', vector_values = [1, 2, 3],
          vector_metadata = [(''content'', JStr ''A''),
                             (''lastUpdated'', JStr ''2025-01-01T00:00:00.000Z'')] \<rparr>]"
  by code_simp

section \<open>Properties of the chat handler\<close>

subsection \<open>The outcomes of a request\<close>

lemma createNewUserSession_Inr:
  assumes "createNewUserSession env f = Inr s"
  shows "s = \<lparr> agentExecutor = \<lparr> tools = [\<lparr> tool_name = ''fusion360_search'',
                 tool_retriever = None,
                 func_retriever = \<lparr> retriever_k = 3, retriever_filter = f \<rparr> \<rparr>] \<rparr>,
               chatHistory = [] \<rparr>"
  using assms by (simp add: createNewUserSession_def split: option.splits)

lemma updateExistingSessionFilters_None [simp]: "updateExistingSessionFilters s None = s"
  by (simp add: updateExistingSessionFilters_def)

lemma updateExistingSessionFilters_history [simp]:
  "chatHistory (updateExistingSessionFilters s f) = chatHistory s"
  by (simp add: updateExistingSessionFilters_def Let_def split: option.splits)

lemma resolve_session_cases [case_names setup_failed created existing]:
  obtains
    (setup_failed) e where "store uid = None" "createNewUserSession env f = Inl e"
      "resolve_session env store uid f = (Inl e, store, [CreateSession f])"
  | (created) s where "store uid = None" "createNewUserSession env f = Inr s"
      "resolve_session env store uid f = (Inr s, store(uid \<mapsto> s), [CreateSession f])"
  | (existing) s where "store uid = Some s"
      "resolve_session env store uid f =
         (Inr (updateExistingSessionFilters s f),
          store(uid \<mapsto> updateExistingSessionFilters s f), [])"
proof (cases "store uid")
  case None
  show ?thesis
  proof (cases "createNewUserSession env f")
    case (Inl e)
    with None show ?thesis by (intro setup_failed [of e]) (simp_all add: resolve_session_def)
  next
    case (Inr s)
    with None show ?thesis by (intro created [of s]) (simp_all add: resolve_session_def)
  qed
next
  case (Some s)
  then show ?thesis by (intro existing [of s]) (simp_all add: resolve_session_def Let_def)
qed

lemma POST_chat_cases [case_names invalid setup_failed invoke_failed ok]:
  obtains
    (invalid) msg where "validate_messages req = Inl msg"
      "POST_chat env store req =
         \<lparr> chat_status = 400, chat_json = ChatError msg,
           conversationHistories = store, chat_calls = [] \<rparr>"
  | (setup_failed) um e store1 calls where "validate_messages req = Inr um"
      "resolve_session env store (userId_of req) (metadataFilter_of (lessonIds req))
         = (Inl e, store1, calls)"
      "POST_chat env store req = chat_caught e store1 calls"
  | (invoke_failed) um sess store1 calls e where "validate_messages req = Inr um"
      "resolve_session env store (userId_of req) (metadataFilter_of (lessonIds req))
         = (Inr sess, store1, calls)"
      "agent_invoke env (agentExecutor sess) um (chatHistory sess) = Inl e"
      "POST_chat env store req =
         chat_caught e store1 (calls @ [AgentInvoke (agentExecutor sess) um (chatHistory sess)])"
  | (ok) um sess store1 calls result where "validate_messages req = Inr um"
      "resolve_session env store (userId_of req) (metadataFilter_of (lessonIds req))
         = (Inr sess, store1, calls)"
      "agent_invoke env (agentExecutor sess) um (chatHistory sess) = Inr result"
      "POST_chat env store req =
         \<lparr> chat_status = 200,
           chat_json = ChatOk (responseText_of result)
             \<lparr> usedRetrieval = usedRetrieval_of result,
               appliedFilter = metadataFilter_of (lessonIds req) \<rparr>,
           conversationHistories = store1(userId_of req \<mapsto>
             sess \<lparr> chatHistory := push_and_trim (chatHistory sess) um (responseText_of result) \<rparr>),
           chat_calls = calls @ [AgentInvoke (agentExecutor sess) um (chatHistory sess)] \<rparr>"
proof (cases "validate_messages req")
  case (Inl msg)
  then show ?thesis by (intro invalid [of msg]) (simp_all add: POST_chat_def)
next
  case (Inr um)
  obtain r store1 calls where
    res: "resolve_session env store (userId_of req) (metadataFilter_of (lessonIds req))
            = (r, store1, calls)"
    by (cases "resolve_session env store (userId_of req) (metadataFilter_of (lessonIds req))")
  show ?thesis
  proof (cases r)
    case (Inl e)
    with Inr res show ?thesis
      by (intro setup_failed [of um e store1 calls]) (simp_all add: POST_chat_def Let_def)
  next
    case sess: (Inr sess)
    show ?thesis
    proof (cases "agent_invoke env (agentExecutor sess) um (chatHistory sess)")
      case (Inl e)
      with Inr res sess show ?thesis
        by (intro invoke_failed [of um sess store1 calls e]) (simp_all add: POST_chat_def Let_def)
    next
      case result: (Inr result)
      with Inr res sess show ?thesis
        by (intro ok [of um sess store1 calls result]) (simp_all add: POST_chat_def Let_def)
    qed
  qed
qed

lemma resolve_session_history:
  assumes "resolve_session env store uid f = (Inr sess, store1, calls)"
  shows "chatHistory sess = history_before store uid" and "store1 uid = Some sess"
    and "calls = [] \<or> calls = [CreateSession f]"
    and "store uid = None \<Longrightarrow> createNewUserSession env f = Inr sess"
proof -
  show "chatHistory sess = history_before store uid"
    using assms
    by (cases rule: resolve_session_cases [of store uid env f])
       (auto simp: history_before_def dest: createNewUserSession_Inr)
  show "store1 uid = Some sess"
    using assms by (cases rule: resolve_session_cases [of store uid env f]) auto
  show "calls = [] \<or> calls = [CreateSession f]"
    using assms by (cases rule: resolve_session_cases [of store uid env f]) auto
  show "createNewUserSession env f = Inr sess" if "store uid = None"
    using assms that by (cases rule: resolve_session_cases [of store uid env f]) auto
qed

lemma resolve_session_failed_calls:
  assumes "resolve_session env store uid f = (Inl e, store1, calls)"
  shows "calls = [CreateSession f]"
  using assms by (cases rule: resolve_session_cases [of store uid env f]) auto

lemma resolve_session_failed_store:
  assumes "resolve_session env store uid f = (Inl e, store1, calls)"
  shows "store1 = store"
  using assms by (cases rule: resolve_session_cases [of store uid env f]) auto

lemma POST_chat_ok:
  assumes "chat_status (POST_chat env store req) = 200"
  obtains um sess result where
    "validate_messages req = Inr um"
    "chatHistory sess = history_before store (userId_of req)"
    "agent_invoke env (agentExecutor sess) um (chatHistory sess) = Inr result"
    "chat_json (POST_chat env store req) =
       ChatOk (responseText_of result)
         \<lparr> usedRetrieval = usedRetrieval_of result,
           appliedFilter = metadataFilter_of (lessonIds req) \<rparr>"
    "conversationHistories (POST_chat env store req) (userId_of req) =
       Some (sess \<lparr> chatHistory :=
                push_and_trim (history_before store (userId_of req)) um (responseText_of result) \<rparr>)"
proof (cases rule: POST_chat_cases [of req env store])
  case (ok um sess store1 calls result)
  from resolve_session_history(1) [OF ok(2)]
  have h: "chatHistory sess = history_before store (userId_of req)" .
  show ?thesis
    by (rule that [of um sess result]) (simp_all add: ok h [symmetric])
qed (use assms in \<open>simp_all add: chat_caught_def\<close>)

lemma POST_chat_other_users:
  assumes "u \<noteq> userId_of req"
  shows "conversationHistories (POST_chat env store req) u = store u"
proof -
  have res: "fst (snd (resolve_session env store (userId_of req) f)) u = store u" for f
    using assms
    by (cases rule: resolve_session_cases [of store "userId_of req" env f]) simp_all
  show ?thesis
  proof (cases rule: POST_chat_cases [of req env store])
    case (invalid msg)
    then show ?thesis by simp
  next
    case (setup_failed um' e store1 calls)
    with res [of "metadataFilter_of (lessonIds req)"] show ?thesis by (simp add: chat_caught_def)
  next
    case (invoke_failed um' sess store1 calls e)
    with res [of "metadataFilter_of (lessonIds req)"] show ?thesis by (simp add: chat_caught_def)
  next
    case (ok um' sess store1 calls result)
    with res [of "metadataFilter_of (lessonIds req)"] assms show ?thesis by simp
  qed
qed

lemma run_turns_Cons:
  "run_turns store ((env, req) # rest) =
     (fst (run_turns (conversationHistories (POST_chat env store req)) rest),
      POST_chat env store req # snd (run_turns (conversationHistories (POST_chat env store req)) rest))"
  by (simp add: Let_def split: prod.splits)

declare run_turns.simps(2) [simp del]

lemma filtered_request_ok:
  "chat_json (POST_chat answering_env Map.empty filtered_request) =
     ChatOk (JStr ''ok'')
       \<lparr> usedRetrieval = True,
         appliedFilter = Some (JObj [(''id'', JObj [(''$in'', JArr [JStr ''1001'', JStr ''1002''])])]) \<rparr>"
  by code_simp

lemma hi_request_ok:
  "chat_json (POST_chat silent_env Map.empty hi_request) =
     ChatOk (JStr ''I couldn't generate a response. Please try again.'')
       \<lparr> usedRetrieval = False, appliedFilter = None \<rparr>"
  by code_simp

subsection \<open>Validation of the messages\<close>

lemma validate_messages_rejects:
  assumes "messages req = None \<or> messages req = Some []
           \<or> (\<exists>ms. messages req = Some ms \<and> ms \<noteq> [] \<and> get_prop (last ms) ''content'' = None)"
  shows "\<exists>msg. validate_messages req = Inl msg"
  using assms by (elim disjE exE conjE) (simp_all add: validate_messages_def Let_def)

text \<open>
  Claim C8. When \<^verbatim>\<open>messages\<close> is absent or empty, or its last element has no
  \<^verbatim>\<open>content\<close> property, the handler answers with status 400 and an error body, makes
  no call to a collaborator (so the agent is not invoked) and leaves the session map as
  it was.
\<close>

theorem chat_rejects_bad_messages:
  assumes "messages req = None \<or> messages req = Some []
           \<or> (\<exists>ms. messages req = Some ms \<and> ms \<noteq> [] \<and> get_prop (last ms) ''content'' = None)"
  shows "chat_status (POST_chat env store req) = 400
         \<and> (\<exists>msg. chat_json (POST_chat env store req) = ChatError msg)
         \<and> chat_calls (POST_chat env store req) = []
         \<and> conversationHistories (POST_chat env store req) = store"
proof -
  from validate_messages_rejects [OF assms] obtain msg where "validate_messages req = Inl msg" ..
  then show ?thesis by (simp add: POST_chat_def)
qed

theorem chat_rejects_bad_messages_witness:
  "messages \<lparr> messages = Some [], userId = None, lessonIds = None \<rparr> = Some []
   \<and> chat_status (POST_chat answering_env Map.empty
         \<lparr> messages = Some [], userId = None, lessonIds = None \<rparr>) = 400
   \<and> chat_calls (POST_chat answering_env Map.empty
         \<lparr> messages = Some [], userId = None, lessonIds = None \<rparr>) = []
   \<and> get_prop (last [JObj [(''role'', JStr ''user'')]]) ''content'' = None
   \<and> chat_status (POST_chat answering_env Map.empty
         \<lparr> messages = Some [JObj [(''role'', JStr ''user'')]], userId = None, lessonIds = None \<rparr>) = 400
   \<and> chat_calls (POST_chat answering_env Map.empty
         \<lparr> messages = Some [JObj [(''role'', JStr ''user'')]], userId = None, lessonIds = None \<rparr>) = []"
  using chat_rejects_bad_messages
          [of "\<lparr> messages = Some [], userId = None, lessonIds = None \<rparr>" answering_env Map.empty]
        chat_rejects_bad_messages
          [of "\<lparr> messages = Some [JObj [(''role'', JStr ''user'')]], userId = None, lessonIds = None \<rparr>"
              answering_env Map.empty]
  by simp

subsection \<open>The retrieval filter\<close>

lemma metadataFilter_of_eq:
  "metadataFilter_of ids =
     (case ids of
        None \<Rightarrow> None
      | Some l \<Rightarrow> if l \<noteq> [] then Some (JObj [(''id'', JObj [(''$in'', JArr l)])]) else None)"
  by (simp add: metadataFilter_of_def split: option.splits)

text \<open>
  Claim C4. The filter derived from a request is present exactly when
  \<^verbatim>\<open>lessonIds\<close> is a non-empty array, and the \<^verbatim>\<open>appliedFilter\<close> of every success response is
  that filter: \<^verbatim>\<open>{id: {$in: lessonIds}}\<close> for a non-empty \<^verbatim>\<open>lessonIds\<close>, absent when
  \<^verbatim>\<open>lessonIds\<close> is absent or empty.
\<close>

theorem chat_applied_filter:
  "(metadataFilter_of (lessonIds req) \<noteq> None \<longleftrightarrow> (\<exists>ids. lessonIds req = Some ids \<and> ids \<noteq> []))
   \<and> (chat_json (POST_chat env store req) = ChatOk txt dbg \<longrightarrow>
        appliedFilter dbg = metadataFilter_of (lessonIds req)
        \<and> appliedFilter dbg =
            (case lessonIds req of
               None \<Rightarrow> None
             | Some ids \<Rightarrow>
                 if ids \<noteq> [] then Some (JObj [(''id'', JObj [(''$in'', JArr ids)])]) else None))"
proof (intro conjI impI)
  show "metadataFilter_of (lessonIds req) \<noteq> None \<longleftrightarrow> (\<exists>ids. lessonIds req = Some ids \<and> ids \<noteq> [])"
    by (simp add: metadataFilter_of_eq split: option.splits)
next
  assume ok: "chat_json (POST_chat env store req) = ChatOk txt dbg"
  show a: "appliedFilter dbg = metadataFilter_of (lessonIds req)"
    using ok by (cases rule: POST_chat_cases [of req env store]) (auto simp: chat_caught_def)
  show "appliedFilter dbg =
            (case lessonIds req of
               None \<Rightarrow> None
             | Some ids \<Rightarrow>
                 if ids \<noteq> [] then Some (JObj [(''id'', JObj [(''$in'', JArr ids)])]) else None)"
    unfolding a by (rule metadataFilter_of_eq)
qed

theorem chat_applied_filter_witness:
  "lessonIds filtered_request = Some [JStr ''1001'', JStr ''1002'']
   \<and> chat_json (POST_chat answering_env Map.empty filtered_request) =
       ChatOk (JStr ''ok'')
         \<lparr> usedRetrieval = True,
           appliedFilter = Some (JObj [(''id'', JObj [(''$in'', JArr [JStr ''1001'', JStr ''1002''])])]) \<rparr>
   \<and> appliedFilter
        \<lparr> usedRetrieval = True,
          appliedFilter = Some (JObj [(''id'', JObj [(''$in'', JArr [JStr ''1001'', JStr ''1002''])])]) \<rparr>
       = Some (JObj [(''id'', JObj [(''$in'', JArr [JStr ''1001'', JStr ''1002''])])])
   \<and> lessonIds hi_request = None
   \<and> chat_json (POST_chat silent_env Map.empty hi_request) =
       ChatOk (JStr ''I couldn't generate a response. Please try again.'')
         \<lparr> usedRetrieval = False, appliedFilter = None \<rparr>
   \<and> appliedFilter \<lparr> usedRetrieval = False, appliedFilter = None \<rparr> = None"
  using chat_applied_filter [of filtered_request answering_env Map.empty]
        chat_applied_filter [of hi_request silent_env Map.empty]
        filtered_request_ok hi_request_ok
  by (simp add: filtered_request_def hi_request_def)

lemma findIndex_Some: "findIndex P xs = Some i \<Longrightarrow> i < length xs \<and> P (xs ! i)"
proof (induction xs arbitrary: i)
  case Nil
  then show ?case by simp
next
  case (Cons x xs)
  show ?case
  proof (cases "P x")
    case True
    with Cons.prems show ?thesis by simp
  next
    case False
    with Cons.prems obtain j where j: "findIndex P xs = Some j" "i = Suc j" by auto
    from Cons.IH [OF j(1)] j(2) show ?thesis by simp
  qed
qed

lemma updateExistingSessionFilters_tools:
  "tools (agentExecutor (updateExistingSessionFilters s (Some f))) =
     (case findIndex (\<lambda>t. tool_name t = ''fusion360_search'') (tools (agentExecutor s)) of
        None \<Rightarrow> tools (agentExecutor s)
      | Some i \<Rightarrow>
          (tools (agentExecutor s))
            [i := (tools (agentExecutor s) ! i)
                    \<lparr> tool_retriever :=
                        map_option (\<lambda>r. r \<lparr> retriever_filter := Some f \<rparr>)
                          (tool_retriever (tools (agentExecutor s) ! i)) \<rparr>])"
proof (cases "findIndex (\<lambda>t. tool_name t = ''fusion360_search'') (tools (agentExecutor s))")
  case None
  then show ?thesis by (simp add: updateExistingSessionFilters_def Let_def)
next
  case (Some i)
  show ?thesis
  proof (cases "tool_retriever (tools (agentExecutor s) ! i)")
    case None
    have "(tools (agentExecutor s) ! i) \<lparr> tool_retriever := None \<rparr> = tools (agentExecutor s) ! i"
      using None by (cases "tools (agentExecutor s) ! i") simp
    then have same: "(tools (agentExecutor s))
        [i := (tools (agentExecutor s) ! i) \<lparr> tool_retriever := None \<rparr>] = tools (agentExecutor s)"
      by (simp only: list_update_id)
    have "updateExistingSessionFilters s (Some f) = s"
      using Some None by (simp add: updateExistingSessionFilters_def Let_def)
    then show ?thesis by (simp only: Some None option.case option.map same)
  next
    case r: (Some r)
    with Some show ?thesis by (simp add: updateExistingSessionFilters_def Let_def)
  qed
qed

lemma POST_chat_existing_session:
  assumes "store (userId_of req) = Some s" and "validate_messages req = Inr um"
  shows "\<exists>s'. conversationHistories (POST_chat env store req) (userId_of req) = Some s'
            \<and> agentExecutor s' =
                agentExecutor (updateExistingSessionFilters s (metadataFilter_of (lessonIds req)))"
proof -
  let ?f = "metadataFilter_of (lessonIds req)"
  have res: "resolve_session env store (userId_of req) ?f =
          (Inr (updateExistingSessionFilters s ?f),
           store(userId_of req \<mapsto> updateExistingSessionFilters s ?f), [])"
    using assms(1) by (simp add: resolve_session_def Let_def)
  show ?thesis
  proof (cases rule: POST_chat_cases [of req env store])
    case (invalid msg)
    with assms(2) show ?thesis by simp
  next
    case (setup_failed um' e store1 calls)
    with res show ?thesis by simp
  next
    case (invoke_failed um' sess store1 calls e)
    with res show ?thesis by (simp add: chat_caught_def)
  next
    case (ok um' sess store1 calls result)
    with res show ?thesis by simp
  qed
qed

lemma updateExistingSessionFilters_no_property:
  assumes "no_retriever_property s"
  shows "updateExistingSessionFilters s f = s"
proof (cases f)
  case None
  then show ?thesis by simp
next
  case (Some g)
  show ?thesis
  proof (cases "findIndex (\<lambda>t. tool_name t = ''fusion360_search'') (tools (agentExecutor s))")
    case None
    with Some show ?thesis by (simp add: updateExistingSessionFilters_def Let_def)
  next
    case found: (Some i)
    from findIndex_Some [OF found] have "i < length (tools (agentExecutor s))" by simp
    with assms have "tool_retriever (tools (agentExecutor s) ! i) = None"
      by (simp add: no_retriever_property_def list_all_length)
    with Some found show ?thesis by (simp add: updateExistingSessionFilters_def Let_def)
  qed
qed

lemma createNewUserSession_no_property:
  assumes "createNewUserSession env f = Inr s"
  shows "no_retriever_property s"
  using createNewUserSession_Inr [OF assms] by (simp add: no_retriever_property_def)

lemma resolve_session_no_property:
  assumes inv: "\<And>u s. store u = Some s \<Longrightarrow> no_retriever_property s"
    and res: "resolve_session env store uid f = (Inr sess, store1, calls)"
  shows "no_retriever_property sess"
proof (cases rule: resolve_session_cases [of store uid env f])
  case (setup_failed e)
  with res show ?thesis by simp
next
  case (created s)
  with res have "sess = s" by simp
  with created(2) show ?thesis by (simp add: createNewUserSession_no_property)
next
  case (existing s)
  from existing(1) have "no_retriever_property s" by (rule inv)
  then have "updateExistingSessionFilters s f = s"
    by (rule updateExistingSessionFilters_no_property)
  with existing(2) res \<open>no_retriever_property s\<close> show ?thesis by simp
qed

lemma POST_chat_no_property:
  assumes inv: "\<And>u s. store u = Some s \<Longrightarrow> no_retriever_property s"
    and new: "conversationHistories (POST_chat env store req) u = Some s"
  shows "no_retriever_property s"
proof (cases "u = userId_of req")
  case False
  with new have "store u = Some s" by (simp add: POST_chat_other_users)
  then show ?thesis by (rule inv)
next
  case True
  show ?thesis
  proof (cases rule: POST_chat_cases [of req env store])
    case (invalid msg)
    with new have "store u = Some s" by simp
    then show ?thesis by (rule inv)
  next
    case (setup_failed um e store1 calls)
    from resolve_session_failed_store [OF setup_failed(2)] setup_failed(3) new
    have "store u = Some s" by (simp add: chat_caught_def)
    then show ?thesis by (rule inv)
  next
    case (invoke_failed um sess store1 calls e)
    from inv invoke_failed(2) have built: "no_retriever_property sess"
      by (rule resolve_session_no_property)
    from resolve_session_history(2) [OF invoke_failed(2)] invoke_failed(4) new True
    have "s = sess" by (simp add: chat_caught_def)
    with built show ?thesis by simp
  next
    case (ok um sess store1 calls result)
    from inv ok(2) have built: "no_retriever_property sess"
      by (rule resolve_session_no_property)
    from ok(4) new True
    have "agentExecutor s = agentExecutor sess" by auto
    with built show ?thesis by (simp add: no_retriever_property_def)
  qed
qed

lemma run_turns_no_property:
  assumes "\<And>u s. store u = Some s \<Longrightarrow> no_retriever_property s"
    and "fst (run_turns store turns) u = Some s"
  shows "no_retriever_property s"
  using assms
proof (induction turns arbitrary: store)
  case Nil
  then show ?case by simp
next
  case (Cons turn turns)
  obtain env req where turn: "turn = (env, req)" by (cases turn)
  let ?next = "conversationHistories (POST_chat env store req)"
  have "\<And>u s. ?next u = Some s \<Longrightarrow> no_retriever_property s"
    using Cons.prems(1) by (rule POST_chat_no_property)
  moreover from Cons.prems(2) have "fst (run_turns ?next turns) u = Some s"
    by (simp add: turn run_turns_Cons)
  ultimately show ?case by (rule Cons.IH)
qed

text \<open>
  In every state reached from the empty session map, a request leaves the agent executor
  of an existing session, and so the filter its search tool applies, as it was, whether
  the request carries lesson identifiers or not.
\<close>

lemma POST_chat_executor_kept:
  assumes "fst (run_turns Map.empty turns) (userId_of req) = Some s"
  shows "\<exists>s'. conversationHistories (POST_chat env (fst (run_turns Map.empty turns)) req)
                (userId_of req) = Some s'
              \<and> agentExecutor s' = agentExecutor s
              \<and> search_tool_filter s' = search_tool_filter s"
proof -
  let ?store = "fst (run_turns Map.empty turns)"
  have built: "no_retriever_property s"
    using assms by (rule run_turns_no_property [of Map.empty, rotated]) simp
  have "\<exists>s'. conversationHistories (POST_chat env ?store req) (userId_of req) = Some s'
              \<and> agentExecutor s' = agentExecutor s"
  proof (cases "validate_messages req")
    case (Inl msg)
    with assms show ?thesis by (simp add: POST_chat_def)
  next
    case (Inr um)
    from POST_chat_existing_session [of ?store req s um env, OF assms Inr]
    show ?thesis by (simp add: updateExistingSessionFilters_no_property [OF built])
  qed
  then obtain s' where
    new: "conversationHistories (POST_chat env ?store req) (userId_of req) = Some s'"
    and ex: "agentExecutor s' = agentExecutor s" by blast
  have "search_tool_filter s' = search_tool_filter s"
    unfolding search_tool_filter_def by (simp only: ex)
  with new ex show ?thesis by blast
qed

text \<open>
  Claim C5. The claim says that a request for an existing session overwrites the filter
  of the session's retrieval tool when the request carries lesson identifiers. The
  handler writes the new filter to a property \<^verbatim>\<open>retriever\<close> of the tool, which the tool
  built by \<^verbatim>\<open>createNewUserSession\<close> does not have, so the write is skipped: after a first
  request with lesson \<open>1001\<close> and a second one with lessons \<open>1001\<close> and \<open>1002\<close>, both
  answered with status 200, the search tool still filters on \<open>1001\<close> alone. (A request
  without lesson identifiers leaves the filter as it was, as the claim says.)
\<close>

theorem chat_filter_not_overwritten:
  "map chat_status
     (snd (run_turns Map.empty
        [(answering_env, one_lesson_request), (answering_env, filtered_request)])) = [200, 200]
   \<and> metadataFilter_of (lessonIds filtered_request)
       = Some (lessons_filter [JStr ''1001'', JStr ''1002''])
   \<and> map_option search_tool_filter
       (fst (run_turns Map.empty
          [(answering_env, one_lesson_request), (answering_env, filtered_request)]) ''u1'')
       = Some (Some (Some (lessons_filter [JStr ''1001''])))"
  by code_simp

subsection \<open>The debug flag\<close>

text \<open>
  Claim C6. In every success response, \<^verbatim>\<open>usedRetrieval\<close> is true exactly when the result
  of this request's agent invocation carries a non-empty sequence of intermediate steps.
\<close>

theorem chat_usedRetrieval:
  assumes "chat_json (POST_chat env store req) = ChatOk txt dbg"
  shows "\<exists>calls ex um h result.
           chat_calls (POST_chat env store req) = calls @ [AgentInvoke ex um h]
           \<and> agent_invoke env ex um h = Inr result
           \<and> (usedRetrieval dbg \<longleftrightarrow> (\<exists>steps. intermediateSteps result = Some steps \<and> steps \<noteq> []))"
proof (cases rule: POST_chat_cases [of req env store])
  case (ok um sess store1 calls result)
  from assms ok(4) have dbg: "usedRetrieval dbg = usedRetrieval_of result" by auto
  have "usedRetrieval_of result \<longleftrightarrow> (\<exists>steps. intermediateSteps result = Some steps \<and> steps \<noteq> [])"
    by (simp add: usedRetrieval_of_def split: option.splits)
  with dbg ok(3,4) show ?thesis by auto
qed (use assms in \<open>simp_all add: chat_caught_def\<close>)

theorem chat_usedRetrieval_witness:
  "chat_json (POST_chat answering_env Map.empty filtered_request) =
     ChatOk (JStr ''ok'')
       \<lparr> usedRetrieval = True,
         appliedFilter = Some (JObj [(''id'', JObj [(''$in'', JArr [JStr ''1001'', JStr ''1002''])])]) \<rparr>
   \<and> (\<exists>calls ex um h result.
         chat_calls (POST_chat answering_env Map.empty filtered_request) = calls @ [AgentInvoke ex um h]
         \<and> agent_invoke answering_env ex um h = Inr result
         \<and> (\<exists>steps. intermediateSteps result = Some steps \<and> steps \<noteq> []))"
  using chat_usedRetrieval [OF filtered_request_ok] filtered_request_ok by simp

subsection \<open>The history\<close>

lemma push_and_trim_eq:
  "push_and_trim h um txt = drop (length h + 2 - 10) (h @ [HumanMessage um, AIMessage txt])"
  by (simp add: push_and_trim_def Let_def)

lemma length_push_and_trim: "length (push_and_trim h um txt) = min 10 (length h + 2)"
  by (simp add: push_and_trim_eq)

lemma suffix_push_and_trim:
  "suffix (push_and_trim h um txt) (h @ [HumanMessage um, AIMessage txt])"
  unfolding push_and_trim_eq by (rule suffix_drop)

lemma alternating_even: "alternating h \<Longrightarrow> even (length h)"
  by (induction h rule: alternating.induct) simp_all

lemma alternating_append: "alternating xs \<Longrightarrow> alternating ys \<Longrightarrow> alternating (xs @ ys)"
  by (induction xs rule: alternating.induct) simp_all

lemma alternating_drop_2: "alternating h \<Longrightarrow> alternating (drop (2 * k) h)"
proof (induction k arbitrary: h)
  case 0
  then show ?case by simp
next
  case (Suc k)
  from Suc.prems show ?case
  proof (induction h rule: alternating.induct)
    case 1
    then show ?case by simp
  next
    case (2 u a rest)
    then show ?case using Suc.IH [of rest] by simp
  qed simp_all
qed

lemma alternating_last:
  "alternating h \<Longrightarrow> h \<noteq> [] \<Longrightarrow> \<exists>a. last h = AIMessage a"
  by (induction h rule: alternating.induct) auto

lemma alternating_push_and_trim:
  assumes "alternating h"
  shows "alternating (push_and_trim h um txt)"
proof -
  have app: "alternating (h @ [HumanMessage um, AIMessage txt])"
    using assms by (intro alternating_append) simp_all
  have "even (length h + 2 - 10)"
    using alternating_even [OF assms] by presburger
  then obtain k where "length h + 2 - 10 = 2 * k" by (elim evenE)
  with alternating_drop_2 [OF app, of k] show ?thesis by (simp add: push_and_trim_eq)
qed

lemma last_push_and_trim: "last (push_and_trim h um txt) = AIMessage txt"
  by (simp add: push_and_trim_eq last_drop)

lemma push_and_trim_nonempty: "push_and_trim h um txt \<noteq> []"
  using length_push_and_trim [of h um "txt"] by (cases "push_and_trim h um txt") simp_all

lemma POST_chat_alternating:
  assumes inv: "\<And>u s. store u = Some s \<Longrightarrow> alternating (chatHistory s)"
    and new: "conversationHistories (POST_chat env store req) u = Some s"
  shows "alternating (chatHistory s)"
proof (cases "u = userId_of req")
  case False
  with new have "store u = Some s" by (simp add: POST_chat_other_users)
  then show ?thesis by (rule inv)
next
  case True
  have before: "alternating (history_before store (userId_of req))"
    by (cases "store (userId_of req)") (simp_all add: history_before_def inv)
  show ?thesis
  proof (cases rule: POST_chat_cases [of req env store])
    case (invalid msg)
    with new have "store u = Some s" by simp
    then show ?thesis by (rule inv)
  next
    case (setup_failed um e store1 calls)
    from resolve_session_failed_store [OF setup_failed(2)] setup_failed(3) new
    have "store u = Some s" by (simp add: chat_caught_def)
    then show ?thesis by (rule inv)
  next
    case (invoke_failed um sess store1 calls e)
    from resolve_session_history(1,2) [OF invoke_failed(2)] invoke_failed(4) new True
    have "chatHistory s = history_before store (userId_of req)" by (simp add: chat_caught_def)
    with before show ?thesis by simp
  next
    case (ok um sess store1 calls result)
    from resolve_session_history(1) [OF ok(2)] ok(4) new True
    have "chatHistory s = push_and_trim (history_before store (userId_of req)) um (responseText_of result)"
      by auto
    with before show ?thesis by (simp add: alternating_push_and_trim)
  qed
qed

lemma run_turns_alternating:
  assumes "\<And>u s. store u = Some s \<Longrightarrow> alternating (chatHistory s)"
    and "fst (run_turns store turns) u = Some s"
  shows "alternating (chatHistory s)"
  using assms
proof (induction turns arbitrary: store)
  case Nil
  then show ?case by simp
next
  case (Cons turn turns)
  obtain env req where turn: "turn = (env, req)" by (cases turn)
  let ?next = "conversationHistories (POST_chat env store req)"
  have "\<And>u s. ?next u = Some s \<Longrightarrow> alternating (chatHistory s)"
    using Cons.prems(1) by (rule POST_chat_alternating)
  moreover from Cons.prems(2) have "fst (run_turns ?next turns) u = Some s"
    by (simp add: turn run_turns_Cons)
  ultimately show ?case by (rule Cons.IH)
qed

lemma POST_chat_ok_length:
  assumes "chat_status (POST_chat env store req) = 200"
  shows "length (history_before (conversationHistories (POST_chat env store req)) (userId_of req))
           = min 10 (length (history_before store (userId_of req)) + 2)
         \<and> conversationHistories (POST_chat env store req) (userId_of req) \<noteq> None"
proof -
  from assms obtain um sess result where
    "conversationHistories (POST_chat env store req) (userId_of req) =
       Some (sess \<lparr> chatHistory :=
                push_and_trim (history_before store (userId_of req)) um (responseText_of result) \<rparr>)"
    by (rule POST_chat_ok)
  then show ?thesis
    by (simp add: history_before_def [of "conversationHistories (POST_chat env store req)"]
          length_push_and_trim)
qed

lemma run_turns_length:
  assumes "list_all (\<lambda>(env, req). userId_of req = u) turns"
    and "list_all (\<lambda>r. chat_status r = 200) (snd (run_turns store turns))"
  shows "length (history_before (fst (run_turns store turns)) u) =
           (if turns = [] then length (history_before store u)
            else min 10 (length (history_before store u) + 2 * length turns))
         \<and> (turns \<noteq> [] \<longrightarrow> fst (run_turns store turns) u \<noteq> None)"
  using assms
proof (induction turns arbitrary: store)
  case Nil
  then show ?case by simp
next
  case (Cons turn turns)
  obtain env req where turn: "turn = (env, req)" by (cases turn)
  let ?next = "conversationHistories (POST_chat env store req)"
  from Cons.prems(1) have u: "userId_of req = u" and us: "list_all (\<lambda>(env, req). userId_of req = u) turns"
    by (simp_all add: turn)
  from Cons.prems(2) have ok: "chat_status (POST_chat env store req) = 200"
    and oks: "list_all (\<lambda>r. chat_status r = 200) (snd (run_turns ?next turns))"
    by (simp_all add: turn run_turns_Cons)
  from POST_chat_ok_length [OF ok] u
  have first: "length (history_before ?next u) = min 10 (length (history_before store u) + 2)"
    and some: "?next u \<noteq> None" by simp_all
  from Cons.IH [OF us oks]
  have rest: "length (history_before (fst (run_turns ?next turns)) u) =
           (if turns = [] then length (history_before ?next u)
            else min 10 (length (history_before ?next u) + 2 * length turns))"
    and rest_some: "turns \<noteq> [] \<longrightarrow> fst (run_turns ?next turns) u \<noteq> None" by simp_all
  have fst_eq: "fst (run_turns store (turn # turns)) = fst (run_turns ?next turns)"
    by (simp add: turn run_turns_Cons)
  have "length (history_before (fst (run_turns ?next turns)) u) =
          min 10 (length (history_before store u) + 2 * length (turn # turns))
        \<and> fst (run_turns ?next turns) u \<noteq> None"
  proof (cases "turns = []")
    case True
    with first some show ?thesis by simp
  next
    case False
    with rest rest_some first show ?thesis by simp
  qed
  then show ?case unfolding fst_eq by simp
qed

lemma numbered_turns_run:
  "length numbered_turns = 11
   \<and> list_all (\<lambda>(env, req). userId_of req = ''u1'') numbered_turns
   \<and> list_all (\<lambda>r. chat_status r = 200) (snd (run_turns Map.empty numbered_turns))"
  by code_simp

lemma numbered_turns_history:
  "map_option chatHistory (fst (run_turns Map.empty numbered_turns) ''u1'') =
     Some [HumanMessage (JStr ''7''), AIMessage (JStr ''ok''),
           HumanMessage (JStr ''8''), AIMessage (JStr ''ok''),
           HumanMessage (JStr ''9''), AIMessage (JStr ''ok''),
           HumanMessage (JStr ''10''), AIMessage (JStr ''ok''),
           HumanMessage (JStr ''11''), AIMessage (JStr ''ok'')]"
  by code_simp

lemma hi_request_status: "chat_status (POST_chat silent_env Map.empty hi_request) = 200"
  by code_simp

lemma after_one_turn_status:
  "chat_status (POST_chat silent_env (fst (run_turns Map.empty [(answering_env, filtered_request)]))
      hi_request) = 200"
  by code_simp

lemma after_one_turn_history:
  "map_option chatHistory
     (conversationHistories
        (POST_chat silent_env (fst (run_turns Map.empty [(answering_env, filtered_request)])) hi_request)
        ''u1'')
   = Some [HumanMessage (JStr ''hi''), AIMessage (JStr ''ok''),
           HumanMessage (JStr ''hi''),
           AIMessage (JStr ''I couldn't generate a response. Please try again.'')]"
  by code_simp

text \<open>
  Claim C3. After a successful turn the user's history has at most ten entries: it is
  the previous history followed by the user message and the reply, cut down to its last
  ten entries (a suffix, so the oldest entries go first and the order is kept). After
  eleven successive successful turns of one user the history has exactly ten entries.
\<close>

theorem chat_history_capped:
  "(chat_status (POST_chat env store req) = 200 \<longrightarrow>
      (\<exists>s um reply dbg.
          conversationHistories (POST_chat env store req) (userId_of req) = Some s
          \<and> validate_messages req = Inr um
          \<and> chat_json (POST_chat env store req) = ChatOk reply dbg
          \<and> length (chatHistory s) \<le> 10
          \<and> length (chatHistory s) = min 10 (length (history_before store (userId_of req)) + 2)
          \<and> suffix (chatHistory s)
               (history_before store (userId_of req) @ [HumanMessage um, AIMessage reply])))
   \<and> (length turns = 11
        \<and> list_all (\<lambda>(env, req). userId_of req = u) turns
        \<and> list_all (\<lambda>r. chat_status r = 200) (snd (run_turns store turns)) \<longrightarrow>
      (\<exists>s. fst (run_turns store turns) u = Some s \<and> length (chatHistory s) = 10))"
proof (intro conjI impI)
  assume "chat_status (POST_chat env store req) = 200"
  then obtain um sess result where
    v: "validate_messages req = Inr um"
    and js: "chat_json (POST_chat env store req) =
       ChatOk (responseText_of result)
         \<lparr> usedRetrieval = usedRetrieval_of result,
           appliedFilter = metadataFilter_of (lessonIds req) \<rparr>"
    and new: "conversationHistories (POST_chat env store req) (userId_of req) =
       Some (sess \<lparr> chatHistory :=
                push_and_trim (history_before store (userId_of req)) um (responseText_of result) \<rparr>)"
    by (rule POST_chat_ok)
  let ?s = "sess \<lparr> chatHistory :=
                push_and_trim (history_before store (userId_of req)) um (responseText_of result) \<rparr>"
  have len: "length (chatHistory ?s) = min 10 (length (history_before store (userId_of req)) + 2)"
    by (simp add: length_push_and_trim)
  then have "length (chatHistory ?s) \<le> 10" by simp
  moreover have "suffix (chatHistory ?s)
       (history_before store (userId_of req) @ [HumanMessage um, AIMessage (responseText_of result)])"
    by (simp add: suffix_push_and_trim)
  ultimately show "\<exists>s um reply dbg.
          conversationHistories (POST_chat env store req) (userId_of req) = Some s
          \<and> validate_messages req = Inr um
          \<and> chat_json (POST_chat env store req) = ChatOk reply dbg
          \<and> length (chatHistory s) \<le> 10
          \<and> length (chatHistory s) = min 10 (length (history_before store (userId_of req)) + 2)
          \<and> suffix (chatHistory s)
               (history_before store (userId_of req) @ [HumanMessage um, AIMessage reply])"
    using new v js len by blast
next
  assume a: "length turns = 11
        \<and> list_all (\<lambda>(env, req). userId_of req = u) turns
        \<and> list_all (\<lambda>r. chat_status r = 200) (snd (run_turns store turns))"
  then have ne: "turns \<noteq> []" by auto
  from a run_turns_length [of u turns store]
  have len: "length (history_before (fst (run_turns store turns)) u) =
           min 10 (length (history_before store u) + 2 * length turns)"
    and some: "fst (run_turns store turns) u \<noteq> None"
    using ne by simp_all
  from some obtain s where s: "fst (run_turns store turns) u = Some s" by blast
  with len a have "length (chatHistory s) = 10" by (simp add: history_before_def)
  with s show "\<exists>s. fst (run_turns store turns) u = Some s \<and> length (chatHistory s) = 10" by blast
qed

theorem chat_history_capped_witness:
  "chat_status (POST_chat silent_env Map.empty hi_request) = 200
   \<and> (\<exists>s um reply dbg.
          conversationHistories (POST_chat silent_env Map.empty hi_request) (userId_of hi_request) = Some s
          \<and> validate_messages hi_request = Inr um
          \<and> chat_json (POST_chat silent_env Map.empty hi_request) = ChatOk reply dbg
          \<and> length (chatHistory s) \<le> 10
          \<and> suffix (chatHistory s)
               (history_before Map.empty (userId_of hi_request) @ [HumanMessage um, AIMessage reply]))
   \<and> length numbered_turns = 11
   \<and> list_all (\<lambda>(env, req). userId_of req = ''u1'') numbered_turns
   \<and> list_all (\<lambda>r. chat_status r = 200) (snd (run_turns Map.empty numbered_turns))
   \<and> (\<exists>s. fst (run_turns Map.empty numbered_turns) ''u1'' = Some s \<and> length (chatHistory s) = 10)
   \<and> map_option chatHistory (fst (run_turns Map.empty numbered_turns) ''u1'') =
       Some [HumanMessage (JStr ''7''), AIMessage (JStr ''ok''),
             HumanMessage (JStr ''8''), AIMessage (JStr ''ok''),
             HumanMessage (JStr ''9''), AIMessage (JStr ''ok''),
             HumanMessage (JStr ''10''), AIMessage (JStr ''ok''),
             HumanMessage (JStr ''11''), AIMessage (JStr ''ok'')]"
  using chat_history_capped [of silent_env Map.empty hi_request numbered_turns "''u1''"]
        hi_request_status numbered_turns_run numbered_turns_history
  by blast

text \<open>
  Claim C9. In every state reached from the empty session map by a sequence of
  requests, a successful turn leaves the user's history non-empty, of even length, made of
  user/assistant pairs, and ending with an assistant message whose content is the
  \<^verbatim>\<open>response\<close> returned to the caller; that response is the agent's output, or the fixed
  fallback string when the output is missing or falsy.
\<close>

theorem chat_history_alternates:
  assumes "chat_status (POST_chat env (fst (run_turns Map.empty turns)) req) = 200"
  shows "\<exists>s reply dbg.
           conversationHistories (POST_chat env (fst (run_turns Map.empty turns)) req) (userId_of req) = Some s
           \<and> chat_json (POST_chat env (fst (run_turns Map.empty turns)) req) = ChatOk reply dbg
           \<and> even (length (chatHistory s))
           \<and> alternating (chatHistory s)
           \<and> chatHistory s \<noteq> []
           \<and> last (chatHistory s) = AIMessage reply
           \<and> (\<exists>ex um h result.
                 agent_invoke env ex um h = Inr result
                 \<and> reply = (case result_output result of
                              None \<Rightarrow> JStr ''I couldn't generate a response. Please try again.''
                            | Some out \<Rightarrow>
                                if truthy out then out
                                else JStr ''I couldn't generate a response. Please try again.''))"
proof -
  let ?store = "fst (run_turns Map.empty turns)"
  from assms obtain um sess result where
    inv: "agent_invoke env (agentExecutor sess) um (chatHistory sess) = Inr result"
    and js: "chat_json (POST_chat env ?store req) =
       ChatOk (responseText_of result)
         \<lparr> usedRetrieval = usedRetrieval_of result,
           appliedFilter = metadataFilter_of (lessonIds req) \<rparr>"
    and new: "conversationHistories (POST_chat env ?store req) (userId_of req) =
       Some (sess \<lparr> chatHistory :=
                push_and_trim (history_before ?store (userId_of req)) um (responseText_of result) \<rparr>)"
    by (rule POST_chat_ok)
  let ?s = "sess \<lparr> chatHistory :=
                push_and_trim (history_before ?store (userId_of req)) um (responseText_of result) \<rparr>"
  have reach: "\<And>u s. ?store u = Some s \<Longrightarrow> alternating (chatHistory s)"
    by (rule run_turns_alternating [of Map.empty]) simp_all
  have alt: "alternating (chatHistory ?s)"
    using reach new by (rule POST_chat_alternating)
  have "even (length (chatHistory ?s))" using alt by (rule alternating_even)
  moreover have "chatHistory ?s \<noteq> []" by (simp add: push_and_trim_nonempty)
  moreover have "last (chatHistory ?s) = AIMessage (responseText_of result)"
    by (simp add: last_push_and_trim)
  moreover have "responseText_of result =
      (case result_output result of
         None \<Rightarrow> JStr ''I couldn't generate a response. Please try again.''
       | Some out \<Rightarrow>
           if truthy out then out else JStr ''I couldn't generate a response. Please try again.'')"
    by (simp only: responseText_of_def)
  ultimately show ?thesis using new js alt inv by blast
qed

theorem chat_history_alternates_witness:
  "chat_status (POST_chat silent_env (fst (run_turns Map.empty [(answering_env, filtered_request)]))
      hi_request) = 200
   \<and> (\<exists>s reply dbg.
         conversationHistories
           (POST_chat silent_env (fst (run_turns Map.empty [(answering_env, filtered_request)])) hi_request)
           (userId_of hi_request) = Some s
         \<and> chat_json
             (POST_chat silent_env (fst (run_turns Map.empty [(answering_env, filtered_request)])) hi_request)
             = ChatOk reply dbg
         \<and> even (length (chatHistory s))
         \<and> alternating (chatHistory s)
         \<and> chatHistory s \<noteq> []
         \<and> last (chatHistory s) = AIMessage reply)
   \<and> map_option chatHistory
        (conversationHistories
           (POST_chat silent_env (fst (run_turns Map.empty [(answering_env, filtered_request)])) hi_request)
           ''u1'')
       = Some [HumanMessage (JStr ''hi''), AIMessage (JStr ''ok''),
               HumanMessage (JStr ''hi''),
               AIMessage (JStr ''I couldn't generate a response. Please try again.'')]"
  using chat_history_alternates [OF after_one_turn_status] after_one_turn_status
        after_one_turn_history
  by blast

subsection \<open>Failure of the agent\<close>

lemma failing_facts:
  "AgentInvoke (agentExecutor (search_session None [])) (JStr ''hi'') []
     \<in> set (chat_calls (POST_chat failing_env Map.empty hi_request))"
  "agent_invoke failing_env (agentExecutor (search_session None [])) (JStr ''hi'') []
     = Inl (Error ''429 rate limit'')"
  "AgentInvoke (agentExecutor (search_session (Some (lessons_filter [JStr ''1001''])) []))
       (JStr ''hi'') [HumanMessage (JStr ''hello''), AIMessage (JStr ''ok'')]
     \<in> set (chat_calls (POST_chat failing_env seeded_store hi_request))"
  "agent_invoke failing_env (agentExecutor (search_session (Some (lessons_filter [JStr ''1001''])) []))
       (JStr ''hi'') [HumanMessage (JStr ''hello''), AIMessage (JStr ''ok'')]
     = Inl (Error ''429 rate limit'')"
  "history_before Map.empty (userId_of hi_request) = []"
  "history_before seeded_store (userId_of hi_request)
     = [HumanMessage (JStr ''hello''), AIMessage (JStr ''ok'')]"
  by code_simp+

text \<open>
  Claim C10. When the agent invocation made by a request throws, the handler answers
  with status 500 and the error's message, the user's session is in the session map, and
  its history is the one the user had before the request (empty for a user without a
  session, whose newly built session stays in the map).
\<close>

theorem chat_agent_failure:
  assumes "AgentInvoke ex um h \<in> set (chat_calls (POST_chat env store req))"
    and "agent_invoke env ex um h = Inl e"
  shows "chat_status (POST_chat env store req) = 500
         \<and> chat_json (POST_chat env store req) =
             ChatError (''There was an error processing your request: ''
                          @ message_of e ''An unknown error occurred'')
         \<and> (\<exists>s. conversationHistories (POST_chat env store req) (userId_of req) = Some s
                \<and> chatHistory s = history_before store (userId_of req)
                \<and> (store (userId_of req) = None \<longrightarrow>
                      createNewUserSession env (metadataFilter_of (lessonIds req)) = Inr s))"
proof (cases rule: POST_chat_cases [of req env store])
  case (invalid msg)
  with assms(1) show ?thesis by simp
next
  case (setup_failed um' e' store1 calls)
  from resolve_session_failed_calls [OF setup_failed(2)] setup_failed(3) assms(1)
  show ?thesis by (simp add: chat_caught_def)
next
  case (invoke_failed um' sess store1 calls e')
  note res = resolve_session_history [OF invoke_failed(2)]
  from res(3) invoke_failed(4) assms(1)
  have same: "ex = agentExecutor sess" "um = um'" "h = chatHistory sess"
    by (auto simp: chat_caught_def)
  with invoke_failed(3) assms(2) have e: "e' = e" by simp
  from res(1,2,4) show ?thesis
    by (simp add: invoke_failed(4) e chat_caught_def)
next
  case (ok um' sess store1 calls result)
  note res = resolve_session_history [OF ok(2)]
  from res(3) ok(4) assms(1)
  have same: "ex = agentExecutor sess" "um = um'" "h = chatHistory sess"
    by auto
  with ok(3) assms(2) show ?thesis by simp
qed

theorem chat_agent_failure_witness:
  "AgentInvoke (agentExecutor (search_session None [])) (JStr ''hi'') []
     \<in> set (chat_calls (POST_chat failing_env Map.empty hi_request))
   \<and> agent_invoke failing_env (agentExecutor (search_session None [])) (JStr ''hi'') []
       = Inl (Error ''429 rate limit'')
   \<and> chat_status (POST_chat failing_env Map.empty hi_request) = 500
   \<and> (\<exists>s. conversationHistories (POST_chat failing_env Map.empty hi_request) (userId_of hi_request)
              = Some s
            \<and> chatHistory s = []
            \<and> createNewUserSession failing_env (metadataFilter_of (lessonIds hi_request)) = Inr s)
   \<and> chat_status (POST_chat failing_env seeded_store hi_request) = 500
   \<and> (\<exists>s. conversationHistories (POST_chat failing_env seeded_store hi_request) (userId_of hi_request)
              = Some s
            \<and> chatHistory s = [HumanMessage (JStr ''hello''), AIMessage (JStr ''ok'')])"
  using chat_agent_failure [OF failing_facts(1) failing_facts(2)]
        chat_agent_failure [OF failing_facts(3) failing_facts(4)]
        failing_facts
  by auto

end
